theory Spec2Isabelle
  imports Main
begin

section \<open>Kubernetes objects read by the controller\<close>

text \<open>
  \<^verbatim>\<open>v1.PodPhase\<close> is a Go string type with five named constants. The controller only
  compares the phase of a pod with three of them, so a phase is kept as the string it is.
\<close>

type_synonym PodPhase = string

definition PodPending :: PodPhase where "PodPending = ''Pending''"
definition PodRunning :: PodPhase where "PodRunning = ''Running''"
definition PodSucceeded :: PodPhase where "PodSucceeded = ''Succeeded''"
definition PodFailed :: PodPhase where "PodFailed = ''Failed''"
definition PodUnknown :: PodPhase where "PodUnknown = ''Unknown''"

definition known_phase :: "PodPhase \<Rightarrow> bool" where
  "known_phase ph = (ph \<in> set [PodPending, PodRunning, PodSucceeded, PodFailed, PodUnknown])"

text \<open>
  \<^verbatim>\<open>v1.ContainerState\<close> holds three pointers, each of which may be nil. Of the structs they
  point to the controller reads the field \<^verbatim>\<open>Reason\<close> only: \<open>Waiting\<close> and \<open>Terminated\<close> are
  \<open>None\<close> for a nil pointer and \<open>Some reason\<close> otherwise; \<open>Running\<close> tells whether the
  pointer is set.
\<close>

record ContainerState =
  Waiting :: "string option"
  Running :: bool
  Terminated :: "string option"

record ContainerStatus =
  State :: ContainerState

text \<open>
  A pod, with \<^verbatim>\<open>ObjectMeta\<close> and \<^verbatim>\<open>Status\<close> flattened. Instants and durations are counted in
  nanoseconds: \<^verbatim>\<open>t.Add(d)\<close> is \<open>t + d\<close> and \<^verbatim>\<open>t.After(u)\<close> is \<open>u < t\<close>.
\<close>

record Pod =
  Namespace :: string
  Name :: string
  CreationTimestamp :: int
  Phase :: PodPhase
  ContainerStatuses :: "ContainerStatus list"

definition Minute :: int where "Minute = 60000000000"
definition Hour :: int where "Hour = 60 * Minute"

section \<open>Errors\<close>

text \<open>
  An error is a status error of the API server with its reason, some other failure, or an
  error wrapped with a message by \<^verbatim>\<open>errors.Wrap\<close>. \<^verbatim>\<open>k8sErrors.IsNotFound\<close> looks at the error
  itself, not at what it wraps.
\<close>

datatype error = StatusError string | Failure string | Wrap error string

fun IsNotFound :: "error \<Rightarrow> bool" where
  "IsNotFound (StatusError r) = (r = ''NotFound'')"
| "IsNotFound (Failure m) = False"
| "IsNotFound (Wrap e m) = False"

section \<open>The controller\<close>

text \<open>
  The cluster behind the lister and the deleter is a state of type \<open>'s\<close>: \<open>lister\<close> reads it,
  \<open>deleter\<close> returns its error (\<open>None\<close> for nil) and the next state. The logger is not a
  field: what the controller logs is kept in the trace of a pass (see \<open>Effect\<close>), and in
  \<^verbatim>\<open>New\<close> the creation of the default logger is taken to succeed.
\<close>

record 's Controller =
  lister :: "'s \<Rightarrow> string \<Rightarrow> string \<Rightarrow> error + Pod list"
  deleter :: "'s \<Rightarrow> string \<Rightarrow> string \<Rightarrow> error option \<times> 's"
  namespace :: string
  selector :: string
  grace :: int
  interval :: int
  dryRun :: bool
  reasons :: "string list"
  reasonsMap :: "string \<rightharpoonup> bool"

definition DefaultReasons :: "string list" where
  "DefaultReasons = [''CrashLoopBackOff'', ''Error'']"

type_synonym 's Option = "'s Controller \<Rightarrow> error + 's Controller"

definition WithDryRun :: "bool \<Rightarrow> 's Option" where
  "WithDryRun dryrun = (\<lambda>c. Inr (c\<lparr>dryRun := dryrun\<rparr>))"

definition WithNamespace :: "string \<Rightarrow> 's Option" where
  "WithNamespace ns = (\<lambda>c. Inr (c\<lparr>namespace := ns\<rparr>))"

definition WithSelector :: "string \<Rightarrow> 's Option" where
  "WithSelector sel = (\<lambda>c. Inr (c\<lparr>selector := sel\<rparr>))"

definition WithGrace :: "int \<Rightarrow> 's Option" where
  "WithGrace d = (\<lambda>c. Inr (c\<lparr>grace := d\<rparr>))"

definition WithInterval :: "int \<Rightarrow> 's Option" where
  "WithInterval d = (\<lambda>c. Inr (c\<lparr>interval := d\<rparr>))"

definition WithReasons :: "string list \<Rightarrow> 's Option" where
  "WithReasons rs = (\<lambda>c. Inr (c\<lparr>reasons := rs\<rparr>))"

text \<open>The options this package exports (\<^verbatim>\<open>WithLogger\<close> apart, the logger being no field).\<close>

inductive package_option :: "'s Option \<Rightarrow> bool" where
  "package_option (WithDryRun b)"
| "package_option (WithNamespace ns)"
| "package_option (WithSelector sel)"
| "package_option (WithGrace d)"
| "package_option (WithInterval d)"
| "package_option (WithReasons rs)"

fun apply_options :: "'s Option list \<Rightarrow> 's Controller \<Rightarrow> error + 's Controller" where
  "apply_options [] c = Inr c"
| "apply_options (opt # opts) c =
     (case opt c of
        Inl err \<Rightarrow> Inl (Wrap err ''option failed'')
      | Inr c' \<Rightarrow> apply_options opts c')"

definition New ::
  "('s \<Rightarrow> string \<Rightarrow> string \<Rightarrow> error + Pod list) \<Rightarrow>
   ('s \<Rightarrow> string \<Rightarrow> string \<Rightarrow> error option \<times> 's) \<Rightarrow> 's Option list \<Rightarrow> error + 's Controller" where
  "New l d options =
     (case apply_options options
             \<lparr>lister = l, deleter = d, namespace = [], selector = [],
              grace = Minute * 30, interval = Minute * 10, dryRun = False,
              reasons = DefaultReasons, reasonsMap = Map.empty\<rparr> of
        Inl err \<Rightarrow> Inl err
      | Inr c \<Rightarrow> Inr (c\<lparr>reasonsMap := foldl (\<lambda>m r. m(r \<mapsto> True)) (reasonsMap c) (reasons c)\<rparr>))"

section \<open>One pass\<close>

text \<open>
  What a pass does to the outside is kept as a trace: the lines it logs and the calls of
  \<^verbatim>\<open>DeletePod\<close> with the error they returned. Each entry carries the position, in the
  listing, of the pod the pass was working on.
\<close>

datatype Effect =
    SkipPodPhase PodPhase
  | SkipCreationTimestamp int
  | SkipReason string
  | Deleting string
  | DeletePodCall string string "error option"

type_synonym Entry = "nat \<times> Effect"

type_synonym 's Outcome = "error option \<times> 's \<times> Entry list"

fun emit :: "Entry list \<Rightarrow> 's Outcome \<Rightarrow> 's Outcome" where
  "emit es (r, s, tr) = (r, s, es @ tr)"

text \<open>The reason of a container status (lines 123 to 128 of \<^verbatim>\<open>controller.go\<close>).\<close>

definition status_reason :: "ContainerStatus \<Rightarrow> string" where
  "status_reason status =
     (if Terminated (State status) \<noteq> None then the (Terminated (State status))
      else if Waiting (State status) \<noteq> None then the (Waiting (State status))
      else '''')"

text \<open>
  The loop labelled \<^verbatim>\<open>STATUS\<close>. A result \<open>Some err\<close> is the \<^verbatim>\<open>return\<close> that leaves
  \<^verbatim>\<open>Once\<close> from inside the loop.
\<close>

fun statuses :: "'s Controller \<Rightarrow> nat \<Rightarrow> Pod \<Rightarrow> ContainerStatus list \<Rightarrow> 's \<Rightarrow> 's Outcome" where
  "statuses c i pod [] s = (None, s, [])"
| "statuses c i pod (status # rest) s =
     (let reason = status_reason status in
      if reasonsMap c reason = None then
        emit [(i, SkipReason reason)] (statuses c i pod rest s)
      else if \<not> dryRun c then
        (case deleter c s (Namespace pod) (Name pod) of
           (Some err, s') \<Rightarrow>
             if \<not> IsNotFound err then
               (Some (Wrap err (''failed to delete pod '' @ Namespace pod @ ''/'' @ Name pod)), s',
                [(i, Deleting reason), (i, DeletePodCall (Namespace pod) (Name pod) (Some err))])
             else
               emit [(i, Deleting reason), (i, DeletePodCall (Namespace pod) (Name pod) (Some err))]
                 (statuses c i pod rest s')
         | (None, s') \<Rightarrow>
             emit [(i, Deleting reason), (i, DeletePodCall (Namespace pod) (Name pod) None)]
               (statuses c i pod rest s'))
      else
        emit [(i, Deleting reason)] (statuses c i pod rest s))"

text \<open>The body of the loop over the pods, after the check of the context.\<close>

definition pod_body :: "'s Controller \<Rightarrow> int \<Rightarrow> nat \<Rightarrow> Pod \<Rightarrow> 's \<Rightarrow> 's Outcome" where
  "pod_body c now i pod s =
     (if Phase pod = PodPending \<or> Phase pod = PodSucceeded \<or> Phase pod = PodUnknown then
        (None, s, [(i, SkipPodPhase (Phase pod))])
      else if now < CreationTimestamp pod + grace c then
        (None, s, [(i, SkipCreationTimestamp (CreationTimestamp pod))])
      else statuses c i pod (ContainerStatuses pod) s)"

text \<open>
  The loop over the pods. \<open>ctxDone i\<close> tells whether the select on \<^verbatim>\<open>ctx.Done()\<close> at the
  start of iteration \<open>i\<close> finds the context cancelled, and \<open>now i\<close> is what \<^verbatim>\<open>time.Now()\<close>
  returns in that iteration.
\<close>

fun pods_loop ::
  "'s Controller \<Rightarrow> (nat \<Rightarrow> bool) \<Rightarrow> (nat \<Rightarrow> int) \<Rightarrow> nat \<Rightarrow> Pod list \<Rightarrow> 's \<Rightarrow> 's Outcome" where
  "pods_loop c ctxDone now i [] s = (None, s, [])"
| "pods_loop c ctxDone now i (pod # pods) s =
     (if ctxDone i then (None, s, [])
      else
        (case pod_body c (now i) i pod s of
           (Some err, s', tr) \<Rightarrow> (Some err, s', tr)
         | (None, s', tr) \<Rightarrow> emit tr (pods_loop c ctxDone now (Suc i) pods s')))"

definition Once :: "'s Controller \<Rightarrow> (nat \<Rightarrow> bool) \<Rightarrow> (nat \<Rightarrow> int) \<Rightarrow> 's \<Rightarrow> 's Outcome" where
  "Once c ctxDone now s =
     (case lister c s (namespace c) (selector c) of
        Inl err \<Rightarrow> (Some (Wrap err ''failed to list pods''), s, [])
      | Inr pods \<Rightarrow> pods_loop c ctxDone now 0 pods s)"


section \<open>The loop\<close>

text \<open>
  \<^verbatim>\<open>Loop\<close> runs in one goroutine: a pass is a call of \<^verbatim>\<open>Once\<close> that has returned before
  the next \<^verbatim>\<open>select\<close>. The input of the model is the list of the cases the successive
  selects take: a tick of the ticker or a value on \<^verbatim>\<open>stopChan\<close>. \<open>returned\<close> tells how the
  run ends: when the list is used up the loop is blocked in its select (\<open>InSelect\<close>);
  \<open>Returns err\<close> is a return of \<^verbatim>\<open>Loop\<close> with that error; and \<^verbatim>\<open>time.NewTicker\<close> panics when
  the interval is not positive (\<open>Panics\<close>). \<open>cancelled\<close> tells whether \<^verbatim>\<open>cancel\<close> has been
  called (on the stop signal, or deferred when \<^verbatim>\<open>Loop\<close> is left), \<open>passes\<close> holds the result
  and the trace of every pass in the order they ran, and \<open>clock k\<close> is the clock of pass
  \<open>k\<close>. The context is cancelled by \<^verbatim>\<open>Loop\<close> alone, after its last pass has returned, so no
  pass of \<^verbatim>\<open>Loop\<close> finds it done.
\<close>

datatype Select = Tick | StopSignal

datatype LoopEnd = InSelect | Returns "error option" | Panics

record 's LoopRun =
  returned :: LoopEnd
  cancelled :: bool
  cluster :: 's
  passes :: "(error option \<times> Entry list) list"

definition ran :: "error option \<times> Entry list \<Rightarrow> 's LoopRun \<Rightarrow> 's LoopRun" where
  "ran p run = run\<lparr>passes := p # passes run\<rparr>"

fun wait_loop ::
  "'s Controller \<Rightarrow> (nat \<Rightarrow> nat \<Rightarrow> int) \<Rightarrow> nat \<Rightarrow> Select list \<Rightarrow> 's \<Rightarrow> 's LoopRun" where
  "wait_loop c clock k [] s =
     \<lparr>returned = InSelect, cancelled = False, cluster = s, passes = []\<rparr>"
| "wait_loop c clock k (Tick # evs) s =
     (case Once c (\<lambda>i. False) (clock k) s of
        (Some err, s', tr) \<Rightarrow>
          \<lparr>returned = Returns (Some (Wrap err ''failed to run'')), cancelled = True,
           cluster = s', passes = [(Some err, tr)]\<rparr>
      | (None, s', tr) \<Rightarrow> ran (None, tr) (wait_loop c clock (Suc k) evs s'))"
| "wait_loop c clock k (StopSignal # evs) s =
     \<lparr>returned = Returns None, cancelled = True, cluster = s, passes = []\<rparr>"

definition Loop :: "'s Controller \<Rightarrow> (nat \<Rightarrow> nat \<Rightarrow> int) \<Rightarrow> Select list \<Rightarrow> 's \<Rightarrow> 's LoopRun" where
  "Loop c clock evs s =
     (case Once c (\<lambda>i. False) (clock 0) s of
        (Some err, s', tr) \<Rightarrow>
          \<lparr>returned = Returns (Some (Wrap err ''failed to run'')), cancelled = True,
           cluster = s', passes = [(Some err, tr)]\<rparr>
      | (None, s', tr) \<Rightarrow>
          if interval c \<le> 0 then
            \<lparr>returned = Panics, cancelled = True, cluster = s', passes = [(None, tr)]\<rparr>
          else ran (None, tr) (wait_loop c clock 1 evs s'))"

text \<open>The number of ticks taken before the first stop signal.\<close>

definition ticks :: "Select list \<Rightarrow> nat" where
  "ticks evs = length (takeWhile (\<lambda>ev. ev = Tick) evs)"

section \<open>The client of the package's test\<close>

text \<open>
  \<^verbatim>\<open>testClient\<close> keeps the pods in a slice: listing returns the slice and deleting removes
  the pods with the given namespace and name. \<^verbatim>\<open>makePod\<close> builds a pod with one container
  status; \<open>t\<close> is the instant at which it is built.
\<close>

definition testListPods :: "Pod list \<Rightarrow> string \<Rightarrow> string \<Rightarrow> error + Pod list" where
  "testListPods pods ns sel = Inr pods"

definition testDeletePod :: "Pod list \<Rightarrow> string \<Rightarrow> string \<Rightarrow> error option \<times> Pod list" where
  "testDeletePod pods ns name =
     (None, filter (\<lambda>p. \<not> (ns = Namespace p \<and> name = Name p)) pods)"

definition makePod :: "int \<Rightarrow> int \<Rightarrow> string \<Rightarrow> string \<Rightarrow> PodPhase \<Rightarrow> string \<Rightarrow> string \<Rightarrow> Pod" where
  "makePod t age ns name phase state reason =
     \<lparr>Namespace = ns, Name = name, CreationTimestamp = t - age, Phase = phase,
      ContainerStatuses =
        [\<lparr>State =
            (if state = ''Running'' then \<lparr>Waiting = None, Running = True, Terminated = None\<rparr>
             else if state = ''Waiting'' then
               \<lparr>Waiting = Some reason, Running = False, Terminated = None\<rparr>
             else if state = ''Terminated'' then
               \<lparr>Waiting = None, Running = False, Terminated = Some reason\<rparr>
             else \<lparr>Waiting = None, Running = False, Terminated = None\<rparr>)\<rparr>]\<rparr>"

text \<open>
  The controller of \<^verbatim>\<open>TestController\<close>, as \<^verbatim>\<open>New(client, client, WithGrace(5 * time.Minute))\<close>
  returns it, and the instant at which the test runs.
\<close>

definition testController :: "Pod list Controller" where
  "testController =
     \<lparr>lister = testListPods, deleter = testDeletePod, namespace = [], selector = [],
      grace = Minute * 5, interval = Minute * 10, dryRun = False,
      reasons = DefaultReasons,
      reasonsMap = [''CrashLoopBackOff'' \<mapsto> True, ''Error'' \<mapsto> True]\<rparr>"

definition testNow :: int where
  "testNow = 1000 * Hour"

text \<open>
  A deleter for the examples below, over the same cluster as \<^verbatim>\<open>testClient\<close>: the pod named
  ``gone'' is reported as not found, deleting the pod named ``locked'' is forbidden, and
  every other pod is deleted as \<^verbatim>\<open>testClient\<close> does.
\<close>

definition flakyDeletePod :: "Pod list \<Rightarrow> string \<Rightarrow> string \<Rightarrow> error option \<times> Pod list" where
  "flakyDeletePod pods ns name =
     (if name = ''gone'' then (Some (StatusError ''NotFound''), pods)
      else if name = ''locked'' then (Some (StatusError ''Forbidden''), pods)
      else testDeletePod pods ns name)"

section \<open>Reading an outcome\<close>

definition result :: "'s Outcome \<Rightarrow> error option" where
  "result out = fst out"

definition final :: "'s Outcome \<Rightarrow> 's" where
  "final out = fst (snd out)"

definition trace :: "'s Outcome \<Rightarrow> Entry list" where
  "trace out = snd (snd out)"

text \<open>
  What a pass did while it worked on the pod at position \<open>i\<close> of the listing, and the calls
  of \<^verbatim>\<open>DeletePod\<close> among that.
\<close>

fun is_delete :: "Effect \<Rightarrow> bool" where
  "is_delete (DeletePodCall ns name r) = True"
| "is_delete (SkipPodPhase ph) = False"
| "is_delete (SkipCreationTimestamp t) = False"
| "is_delete (SkipReason r) = False"
| "is_delete (Deleting r) = False"

definition effects_of :: "nat \<Rightarrow> Entry list \<Rightarrow> Effect list" where
  "effects_of i tr = map snd (filter (\<lambda>x. fst x = i) tr)"

definition deletions :: "nat \<Rightarrow> Entry list \<Rightarrow> Effect list" where
  "deletions i tr = filter is_delete (effects_of i tr)"



text \<open>All the calls of \<^verbatim>\<open>DeletePod\<close> of a pass.\<close>

definition calls :: "Entry list \<Rightarrow> Effect list" where
  "calls tr = filter is_delete (map snd tr)"

text \<open>The entries of a trace that are no calls of \<^verbatim>\<open>DeletePod\<close>: the lines the pass logged.\<close>

definition decisions :: "Entry list \<Rightarrow> Entry list" where
  "decisions tr = filter (\<lambda>x. \<not> is_delete (snd x)) tr"


section \<open>The shape of a trace\<close>

lemma result_simps [simp]: "result (r, s, tr) = r" "final (r, s, tr) = s" "trace (r, s, tr) = tr"
  by (simp_all add: result_def final_def trace_def)

lemma emit_simps [simp]:
  "result (emit es out) = result out" "final (emit es out) = final out"
  "trace (emit es out) = es @ trace out"
  by (cases out; simp)+

lemma statuses_index: "(j, e) \<in> set (trace (statuses c i pod sts s)) \<Longrightarrow> j = i"
  by (induction sts arbitrary: s) (auto simp: Let_def split: if_splits prod.splits option.splits)

lemma pod_body_index: "(j, e) \<in> set (trace (pod_body c t i pod s)) \<Longrightarrow> j = i"
  by (auto simp: pod_body_def split: if_splits dest: statuses_index)

lemma pods_loop_entry:
  "(j, e) \<in> set (trace (pods_loop c ctxDone now i pods s)) \<Longrightarrow>
     i \<le> j \<and> j < i + length pods \<and> \<not> ctxDone j \<and>
     (\<exists>s0. (j, e) \<in> set (trace (pod_body c (now j) j (pods ! (j - i)) s0)))"
proof (induction pods arbitrary: i s)
  case Nil
  then show ?case by simp
next
  case (Cons pod pods)
  show ?case
  proof (cases "ctxDone i")
    case True
    with Cons.prems show ?thesis by simp
  next
    case False
    obtain r s' tr where body: "pod_body c (now i) i pod s = (r, s', tr)"
      by (cases "pod_body c (now i) i pod s") auto
    show ?thesis
    proof (cases "(j, e) \<in> set tr")
      case True
      with body have "(j, e) \<in> set (trace (pod_body c (now i) i pod s))" by simp
      moreover from this have "j = i" by (rule pod_body_index)
      ultimately show ?thesis using False by auto
    next
      case notin: False
      with Cons.prems False body
      have "(j, e) \<in> set (trace (pods_loop c ctxDone now (Suc i) pods s'))"
        by (cases r) auto
      from Cons.IH [OF this] show ?thesis
        by (auto simp: nth_Cons')
    qed
  qed
qed

lemma once_entry:
  assumes "lister c s (namespace c) (selector c) = Inr pods"
    and "(j, e) \<in> set (trace (Once c ctxDone now s))"
  shows "j < length pods \<and> \<not> ctxDone j \<and>
     (\<exists>s0. (j, e) \<in> set (trace (pod_body c (now j) j (pods ! j) s0)))"
  using assms pods_loop_entry [of j e c ctxDone now 0 pods s] by (simp add: Once_def)

lemma in_effects_of: "e \<in> set (effects_of i tr) \<longleftrightarrow> (i, e) \<in> set tr"
  by (force simp: effects_of_def)

lemma deletions_empty: "deletions i tr = [] \<longleftrightarrow> (\<forall>ns n r. (i, DeletePodCall ns n r) \<notin> set tr)"
proof -
  have "deletions i tr = [] \<longleftrightarrow> (\<forall>e \<in> set (effects_of i tr). \<not> is_delete e)"
    by (simp add: deletions_def filter_empty_conv)
  also have "\<dots> \<longleftrightarrow> (\<forall>e. (i, e) \<in> set tr \<longrightarrow> \<not> is_delete e)"
    by (auto simp: in_effects_of)
  also have "\<dots> \<longleftrightarrow> (\<forall>ns n r. (i, DeletePodCall ns n r) \<notin> set tr)"
  proof
    assume h: "\<forall>e. (i, e) \<in> set tr \<longrightarrow> \<not> is_delete e"
    show "\<forall>ns n r. (i, DeletePodCall ns n r) \<notin> set tr"
      using h by fastforce
  next
    assume h: "\<forall>ns n r. (i, DeletePodCall ns n r) \<notin> set tr"
    show "\<forall>e. (i, e) \<in> set tr \<longrightarrow> \<not> is_delete e"
    proof (intro allI impI)
      fix e assume "(i, e) \<in> set tr"
      with h show "\<not> is_delete e" by (cases e) auto
    qed
  qed
  finally show ?thesis .
qed

lemma pod_body_excluded:
  assumes "Phase pod = PodPending \<or> Phase pod = PodSucceeded \<or> Phase pod = PodUnknown"
  shows "pod_body c t i pod s = (None, s, [(i, SkipPodPhase (Phase pod))])"
  using assms by (simp add: pod_body_def)

lemma New_testController:
  "New testListPods testDeletePod [WithGrace (Minute * 5)] = Inr testController"
  by (simp add: New_def WithGrace_def testController_def DefaultReasons_def)

lemmas fixture_defs =
  testController_def testListPods_def testDeletePod_def flakyDeletePod_def makePod_def testNow_def
  Hour_def Minute_def DefaultReasons_def
  PodPending_def PodRunning_def PodSucceeded_def PodFailed_def PodUnknown_def

lemmas pass_defs =
  Once_def pod_body_def status_reason_def Let_def deletions_def effects_of_def



lemma pod_body_young:
  assumes "t < CreationTimestamp pod + grace c"
  shows "pod_body c t i pod s = (None, s, [(i, SkipPodPhase (Phase pod))]) \<or>
         pod_body c t i pod s = (None, s, [(i, SkipCreationTimestamp (CreationTimestamp pod))])"
  using assms by (simp add: pod_body_def)

lemma package_option_preserves:
  assumes "package_option opt" and "opt c = Inr c'"
  shows "reasonsMap c' = reasonsMap c"
  using assms
  by (induction rule: package_option.induct)
     (auto simp: WithDryRun_def WithNamespace_def WithSelector_def WithGrace_def
        WithInterval_def WithReasons_def)

lemma apply_options_preserves:
  assumes "\<forall>opt \<in> set opts. package_option opt" and "apply_options opts c = Inr c'"
  shows "reasonsMap c' = reasonsMap c"
  using assms
proof (induction opts arbitrary: c)
  case Nil
  then show ?case by simp
next
  case (Cons opt opts)
  from Cons.prems(2) obtain c1 where c1: "opt c = Inr c1" and rest: "apply_options opts c1 = Inr c'"
    by (auto split: sum.splits)
  from Cons.prems(1) have "package_option opt" by simp
  from package_option_preserves [OF this c1] Cons.IH [OF _ rest] Cons.prems(1)
  show ?case by simp
qed

lemma foldl_reasons:
  "foldl (\<lambda>m r. m(r \<mapsto> True)) m rs x = (if x \<in> set rs then Some True else m x)"
  by (induction rs arbitrary: m) auto

lemma New_reasonsMap:
  assumes "New l d opts = Inr c" and "\<forall>opt \<in> set opts. package_option opt"
  shows "reasonsMap c x = (if x \<in> set (reasons c) then Some True else None)"
proof -
  from assms(1) obtain c0 where
    c0: "apply_options opts
           \<lparr>lister = l, deleter = d, namespace = [], selector = [],
            grace = Minute * 30, interval = Minute * 10, dryRun = False,
            reasons = DefaultReasons, reasonsMap = Map.empty\<rparr> = Inr c0"
    and c: "c = c0\<lparr>reasonsMap := foldl (\<lambda>m r. m(r \<mapsto> True)) (reasonsMap c0) (reasons c0)\<rparr>"
    by (auto simp: New_def split: sum.splits)
  from apply_options_preserves [OF assms(2) c0] have "reasonsMap c0 = Map.empty" by simp
  with c show ?thesis by (simp add: foldl_reasons)
qed

section \<open>Listing failure\<close>

text \<open>
  C5. If listing the pods fails, \<^verbatim>\<open>Once\<close> returns the listing error wrapped with
  ``failed to list pods'', the cluster is left as it was and the trace is empty: no
  deletion is issued in that pass.
\<close>

theorem list_failure_aborts_pass:
  assumes "lister c s (namespace c) (selector c) = Inl err"
  shows "Once c ctxDone now s = (Some (Wrap err ''failed to list pods''), s, [])"
  using assms by (simp add: Once_def)


theorem list_failure_aborts_pass_witness:
  "Once (testController\<lparr>lister := (\<lambda>s ns sel. Inl (Failure ''connection refused''))\<rparr>)
     (\<lambda>i. False) (\<lambda>i. testNow)
     [makePod testNow Hour ''default'' ''pod0'' PodRunning ''Terminated'' ''Error'']
   = (Some (Wrap (Failure ''connection refused'') ''failed to list pods''),
      [makePod testNow Hour ''default'' ''pod0'' PodRunning ''Terminated'' ''Error''], [])"
  using list_failure_aborts_pass
    [of "testController\<lparr>lister := (\<lambda>s ns sel. Inl (Failure ''connection refused''))\<rparr>"
        "[makePod testNow Hour ''default'' ''pod0'' PodRunning ''Terminated'' ''Error'']"
        "Failure ''connection refused''" "\<lambda>i. False" "\<lambda>i. testNow"]
  by simp


section \<open>Pods skipped for their phase\<close>

text \<open>
  C2. When the listing succeeds and the pod at position \<open>i\<close> has phase Pending, Succeeded
  or Unknown, the pass never calls \<^verbatim>\<open>DeletePod\<close> while it works on that pod, whatever its
  age and its container statuses: all it can do for that pod is to log that it skips it for
  its phase. And among the five phases of the API, a pod for which the pass does anything
  else than that has phase Running or Failed.
\<close>

theorem excluded_phase_never_deleted:
  assumes "lister c s (namespace c) (selector c) = Inr pods"
    and "i < length pods"
  shows "(Phase (pods ! i) = PodPending \<or> Phase (pods ! i) = PodSucceeded \<or> Phase (pods ! i) = PodUnknown \<longrightarrow>
          deletions i (trace (Once c ctxDone now s)) = [] \<and>
          (\<forall>e \<in> set (effects_of i (trace (Once c ctxDone now s))). e = SkipPodPhase (Phase (pods ! i)))) \<and>
         (known_phase (Phase (pods ! i)) \<and>
          (\<exists>e \<in> set (effects_of i (trace (Once c ctxDone now s))). e \<noteq> SkipPodPhase (Phase (pods ! i))) \<longrightarrow>
          Phase (pods ! i) = PodRunning \<or> Phase (pods ! i) = PodFailed)"
proof -
  let ?tr = "trace (Once c ctxDone now s)"
  let ?ph = "Phase (pods ! i)"
  have only: "e = SkipPodPhase ?ph"
    if ex: "?ph = PodPending \<or> ?ph = PodSucceeded \<or> ?ph = PodUnknown" and e: "(i, e) \<in> set ?tr" for e
  proof -
    from once_entry [OF assms(1) e] obtain s0
      where "(i, e) \<in> set (trace (pod_body c (now i) i (pods ! i) s0))" by blast
    then show ?thesis by (simp add: pod_body_excluded [OF ex])
  qed
  have a: "deletions i ?tr = [] \<and> (\<forall>e \<in> set (effects_of i ?tr). e = SkipPodPhase ?ph)"
    if ex: "?ph = PodPending \<or> ?ph = PodSucceeded \<or> ?ph = PodUnknown"
    using only [OF ex] by (fastforce simp: deletions_empty in_effects_of)
  have b: "?ph = PodRunning \<or> ?ph = PodFailed"
    if k: "known_phase ?ph" and e: "\<exists>e \<in> set (effects_of i ?tr). e \<noteq> SkipPodPhase ?ph"
  proof (rule ccontr)
    assume "\<not> (?ph = PodRunning \<or> ?ph = PodFailed)"
    with k have "?ph = PodPending \<or> ?ph = PodSucceeded \<or> ?ph = PodUnknown"
      by (auto simp: known_phase_def)
    from only [OF this] e show False by (auto simp: in_effects_of)
  qed
  from a b show ?thesis by blast
qed

theorem excluded_phase_never_deleted_witness:
  "deletions 0 (trace (Once testController (\<lambda>i. False) (\<lambda>i. testNow)
     [makePod testNow Hour ''default'' ''pod0'' PodPending ''Terminated'' ''Error'',
      makePod testNow Hour ''default'' ''pod1'' PodRunning ''Terminated'' ''Error''])) = [] \<and>
   effects_of 1 (trace (Once testController (\<lambda>i. False) (\<lambda>i. testNow)
     [makePod testNow Hour ''default'' ''pod0'' PodPending ''Terminated'' ''Error'',
      makePod testNow Hour ''default'' ''pod1'' PodRunning ''Terminated'' ''Error''])) =
     [Deleting ''Error'', DeletePodCall ''default'' ''pod1'' None] \<and>
   Phase (makePod testNow Hour ''default'' ''pod1'' PodRunning ''Terminated'' ''Error'') = PodRunning"
  using excluded_phase_never_deleted
    [of testController
        "[makePod testNow Hour ''default'' ''pod0'' PodPending ''Terminated'' ''Error'',
          makePod testNow Hour ''default'' ''pod1'' PodRunning ''Terminated'' ''Error'']"
        "[makePod testNow Hour ''default'' ''pod0'' PodPending ''Terminated'' ''Error'',
          makePod testNow Hour ''default'' ''pod1'' PodRunning ''Terminated'' ''Error'']"
        0 "\<lambda>i. False" "\<lambda>i. testNow"]
    excluded_phase_never_deleted
    [of testController
        "[makePod testNow Hour ''default'' ''pod0'' PodPending ''Terminated'' ''Error'',
          makePod testNow Hour ''default'' ''pod1'' PodRunning ''Terminated'' ''Error'']"
        "[makePod testNow Hour ''default'' ''pod0'' PodPending ''Terminated'' ''Error'',
          makePod testNow Hour ''default'' ''pod1'' PodRunning ''Terminated'' ''Error'']"
        1 "\<lambda>i. False" "\<lambda>i. testNow"]
  by (simp add: fixture_defs pass_defs known_phase_def)

section \<open>Pods younger than the grace period\<close>

text \<open>
  C3. When the listing succeeds and the clock read while the pass works on the pod at
  position \<open>i\<close> is before the creation timestamp of that pod plus the grace period, the
  pass never calls \<^verbatim>\<open>DeletePod\<close> while it works on that pod, whatever its phase and its
  container statuses: all it can do for that pod is to log that it skips it, for its phase
  or for its creation timestamp.
\<close>

theorem young_pod_never_deleted:
  assumes "lister c s (namespace c) (selector c) = Inr pods"
    and "i < length pods"
    and "now i < CreationTimestamp (pods ! i) + grace c"
  shows "deletions i (trace (Once c ctxDone now s)) = [] \<and>
         (\<forall>e \<in> set (effects_of i (trace (Once c ctxDone now s))).
            e = SkipPodPhase (Phase (pods ! i)) \<or>
            e = SkipCreationTimestamp (CreationTimestamp (pods ! i)))"
proof -
  let ?tr = "trace (Once c ctxDone now s)"
  have only: "e = SkipPodPhase (Phase (pods ! i)) \<or>
              e = SkipCreationTimestamp (CreationTimestamp (pods ! i))"
    if e: "(i, e) \<in> set ?tr" for e
  proof -
    from once_entry [OF assms(1) e] obtain s0
      where "(i, e) \<in> set (trace (pod_body c (now i) i (pods ! i) s0))" by blast
    with pod_body_young [OF assms(3), of i s0] show ?thesis by auto
  qed
  then have "deletions i ?tr = []"
    by (fastforce simp: deletions_empty)
  with only show ?thesis by (simp add: in_effects_of)
qed

theorem young_pod_never_deleted_witness:
  "deletions 0 (trace (Once testController (\<lambda>i. False) (\<lambda>i. testNow)
     [makePod testNow Minute ''default'' ''pod0'' PodRunning ''Terminated'' ''CrashLoopBackOff'',
      makePod testNow (Hour * 3) ''default'' ''pod1'' PodRunning ''Terminated'' ''CrashLoopBackOff''])) = [] \<and>
   effects_of 0 (trace (Once testController (\<lambda>i. False) (\<lambda>i. testNow)
     [makePod testNow Minute ''default'' ''pod0'' PodRunning ''Terminated'' ''CrashLoopBackOff'',
      makePod testNow (Hour * 3) ''default'' ''pod1'' PodRunning ''Terminated'' ''CrashLoopBackOff''])) =
     [SkipCreationTimestamp (testNow - Minute)]"
  using young_pod_never_deleted
    [of testController
        "[makePod testNow Minute ''default'' ''pod0'' PodRunning ''Terminated'' ''CrashLoopBackOff'',
          makePod testNow (Hour * 3) ''default'' ''pod1'' PodRunning ''Terminated'' ''CrashLoopBackOff'']"
        "[makePod testNow Minute ''default'' ''pod0'' PodRunning ''Terminated'' ''CrashLoopBackOff'',
          makePod testNow (Hour * 3) ''default'' ''pod1'' PodRunning ''Terminated'' ''CrashLoopBackOff'']"
        0 "\<lambda>i. testNow" "\<lambda>i. False"]
  by (simp add: fixture_defs pass_defs)

section \<open>Matching the reason of a container status\<close>

lemma statuses_no_match:
  assumes "\<forall>st \<in> set sts. reasonsMap c (status_reason st) = None"
  shows "statuses c i pod sts s = (None, s, map (\<lambda>st. (i, SkipReason (status_reason st))) sts)"
  using assms by (induction sts) (auto simp: Let_def)

lemma pod_body_no_match:
  assumes "\<forall>st \<in> set (ContainerStatuses pod). reasonsMap c (status_reason st) = None"
    and "(j, e) \<in> set (trace (pod_body c t i pod s))"
  shows "\<not> is_delete e \<and> (\<forall>r. e \<noteq> Deleting r)"
  using assms(2) statuses_no_match [OF assms(1)]
  by (auto simp: pod_body_def split: if_splits)

lemma calls_empty: "calls tr = [] \<longleftrightarrow> (\<forall>i. deletions i tr = [])"
  by (auto simp: calls_def deletions_def effects_of_def filter_empty_conv)

lemma deletions_empty_iff: "deletions i tr = [] \<longleftrightarrow> (\<forall>e. (i, e) \<in> set tr \<longrightarrow> \<not> is_delete e)"
  by (auto simp: deletions_def filter_empty_conv in_effects_of)

lemma once_no_match:
  assumes ok: "lister c s (namespace c) (selector c) = Inr pods"
    and none: "j < length pods \<Longrightarrow>
            \<forall>st \<in> set (ContainerStatuses (pods ! j)). reasonsMap c (status_reason st) = None"
    and e: "(j, e) \<in> set (trace (Once c ctxDone now s))"
  shows "\<not> is_delete e \<and> (\<forall>r. e \<noteq> Deleting r)"
proof -
  from once_entry [OF ok e] obtain s0 where j: "j < length pods"
    and "(j, e) \<in> set (trace (pod_body c (now j) j (pods ! j) s0))" by blast
  with pod_body_no_match [OF none [OF j]] show ?thesis by blast
qed

text \<open>
  C4. For a controller built by \<^verbatim>\<open>New\<close> from the options of the package: the reason of a
  container status is the reason of its Terminated state if that is set, else the reason of
  its Waiting state if that is set, else the empty string; a reason is found in the lookup
  map exactly when it is equal, as a string, to one of the configured reasons; when the
  listing succeeds and no container status of the pod at position \<open>i\<close> has a configured
  reason, the pass neither calls \<^verbatim>\<open>DeletePod\<close> nor logs a deletion while it works on that
  pod; in particular it calls \<^verbatim>\<open>DeletePod\<close> for no pod without container statuses; and
  with no configured reason at all the pass calls \<^verbatim>\<open>DeletePod\<close> for no pod.
\<close>

theorem reason_matching:
  assumes "New l d opts = Inr c" and "\<forall>opt \<in> set opts. package_option opt"
    and "lister c s (namespace c) (selector c) = Inr pods"
  shows "status_reason st =
           (case Terminated (State st) of
              Some r \<Rightarrow> r
            | None \<Rightarrow> (case Waiting (State st) of Some r \<Rightarrow> r | None \<Rightarrow> '''')) \<and>
         (reasonsMap c x \<noteq> None \<longleftrightarrow> (\<exists>r \<in> set (reasons c). r = x)) \<and>
         (i < length pods \<and>
          (\<forall>st \<in> set (ContainerStatuses (pods ! i)). status_reason st \<notin> set (reasons c)) \<longrightarrow>
            deletions i (trace (Once c ctxDone now s)) = [] \<and>
            (\<forall>r. Deleting r \<notin> set (effects_of i (trace (Once c ctxDone now s))))) \<and>
         (i < length pods \<and> ContainerStatuses (pods ! i) = [] \<longrightarrow>
            deletions i (trace (Once c ctxDone now s)) = []) \<and>
         (reasons c = [] \<longrightarrow> calls (trace (Once c ctxDone now s)) = [])"
proof -
  let ?tr = "trace (Once c ctxDone now s)"
  note look = New_reasonsMap [OF assms(1,2)]
  have reason_eq: "status_reason st =
           (case Terminated (State st) of
              Some r \<Rightarrow> r
            | None \<Rightarrow> (case Waiting (State st) of Some r \<Rightarrow> r | None \<Rightarrow> ''''))"
    by (simp add: status_reason_def split: option.splits)
  have member: "reasonsMap c x \<noteq> None \<longleftrightarrow> (\<exists>r \<in> set (reasons c). r = x)"
    by (auto simp: look)
  have nomatch: "deletions i ?tr = [] \<and> (\<forall>r. Deleting r \<notin> set (effects_of i ?tr))"
    if "\<forall>st \<in> set (ContainerStatuses (pods ! i)). status_reason st \<notin> set (reasons c)"
  proof -
    from that have "\<forall>st \<in> set (ContainerStatuses (pods ! i)). reasonsMap c (status_reason st) = None"
      by (simp add: look)
    then have "\<not> is_delete e \<and> (\<forall>r. e \<noteq> Deleting r)" if "(i, e) \<in> set ?tr" for e
      using once_no_match [OF assms(3) _ that] by blast
    then show ?thesis
      by (auto simp: deletions_empty_iff in_effects_of)
  qed
  have nostatus: "deletions i ?tr = []" if "ContainerStatuses (pods ! i) = []"
    using nomatch that by simp
  have noreason: "calls ?tr = []" if "reasons c = []"
  proof -
    have "\<not> is_delete e" if "(j, e) \<in> set ?tr" for j e
      using once_no_match [OF assms(3) _ that] \<open>reasons c = []\<close> by (simp add: look)
    then show ?thesis
      by (auto simp: calls_empty deletions_empty_iff)
  qed
  from reason_eq member nomatch nostatus noreason show ?thesis by blast
qed

theorem reason_matching_witness:
  "status_reason \<lparr>State = \<lparr>Waiting = Some ''CrashLoopBackOff'', Running = False,
                             Terminated = Some ''Error''\<rparr>\<rparr> = ''Error'' \<and>
   reasonsMap testController ''Error'' = Some True \<and>
   reasonsMap testController ''error'' = None \<and>
   deletions 0 (trace (Once testController (\<lambda>i. False) (\<lambda>i. testNow)
     [makePod testNow Hour ''default'' ''pod0'' PodRunning ''Terminated'' ''error'',
      (makePod testNow Hour ''default'' ''pod1'' PodFailed ''Running'' [])
        \<lparr>ContainerStatuses := []\<rparr>])) = [] \<and>
   deletions 1 (trace (Once testController (\<lambda>i. False) (\<lambda>i. testNow)
     [makePod testNow Hour ''default'' ''pod0'' PodRunning ''Terminated'' ''error'',
      (makePod testNow Hour ''default'' ''pod1'' PodFailed ''Running'' [])
        \<lparr>ContainerStatuses := []\<rparr>])) = [] \<and>
   calls (trace (Once (testController\<lparr>reasons := [], reasonsMap := Map.empty\<rparr>)
     (\<lambda>i. False) (\<lambda>i. testNow)
     [makePod testNow Hour ''default'' ''pod0'' PodRunning ''Terminated'' ''Error''])) = []"
proof -
  let ?st = "\<lparr>State = \<lparr>Waiting = Some ''CrashLoopBackOff'', Running = False,
                           Terminated = Some ''Error''\<rparr>\<rparr>"
  let ?pods = "[makePod testNow Hour ''default'' ''pod0'' PodRunning ''Terminated'' ''error'',
      (makePod testNow Hour ''default'' ''pod1'' PodFailed ''Running'' [])
        \<lparr>ContainerStatuses := []\<rparr>]"
  let ?pods' = "[makePod testNow Hour ''default'' ''pod0'' PodRunning ''Terminated'' ''Error'']"
  let ?c = "testController\<lparr>reasons := [], reasonsMap := Map.empty\<rparr>"
  have opts: "\<forall>opt \<in> set [WithGrace (Minute * 5) :: Pod list Option]. package_option opt"
    by (simp add: package_option.intros)
  have new': "New testListPods testDeletePod [WithGrace (Minute * 5), WithReasons []] = Inr ?c"
    by (simp add: New_def WithGrace_def WithReasons_def testController_def)
  have opts': "\<forall>opt \<in> set [WithGrace (Minute * 5) :: Pod list Option, WithReasons []].
                 package_option opt"
    by (simp add: package_option.intros)
  have l: "lister testController ?pods (namespace testController) (selector testController)
             = Inr ?pods"
    by (simp add: testController_def testListPods_def)
  have l': "lister ?c ?pods' (namespace ?c) (selector ?c) = Inr ?pods'"
    by (simp add: testController_def testListPods_def)
  note a = reason_matching [OF New_testController opts l,
      of ?st "''Error''" 0 "\<lambda>i. False" "\<lambda>i. testNow"]
  note b = reason_matching [OF New_testController opts l,
      of ?st "''error''" 1 "\<lambda>i. False" "\<lambda>i. testNow"]
  note c = reason_matching [OF new' opts' l', of ?st "''Error''" 0 "\<lambda>i. False" "\<lambda>i. testNow"]
  from a b c show ?thesis
    by (simp add: fixture_defs status_reason_def)
qed

section \<open>The empty string as a configured reason\<close>





section \<open>Failing deletions\<close>




lemma statuses_Cons_cases:
  obtains (continue) es s' where
      "statuses c i pod (st # sts) s = emit es (statuses c i pod sts s')"
      "\<forall>x \<in> set es. \<forall>ns n err. x = (j, DeletePodCall ns n (Some err)) \<longrightarrow> IsNotFound err"
    | (leave) err s' where "\<not> IsNotFound err"
      "statuses c i pod (st # sts) s =
         (Some (Wrap err (''failed to delete pod '' @ Namespace pod @ ''/'' @ Name pod)), s',
          [(i, Deleting (status_reason st)),
           (i, DeletePodCall (Namespace pod) (Name pod) (Some err))])"
proof -
  obtain r s' where d: "deleter c s (Namespace pod) (Name pod) = (r, s')"
    by (cases "deleter c s (Namespace pod) (Name pod)") auto
  show thesis
  proof (cases "reasonsMap c (status_reason st) = None")
    case True
    then have "statuses c i pod (st # sts) s =
        emit [(i, SkipReason (status_reason st))] (statuses c i pod sts s)"
      by (simp add: Let_def)
    then show thesis by (rule continue) simp
  next
    case match: False
    show thesis
    proof (cases "dryRun c")
      case True
      with match have "statuses c i pod (st # sts) s =
          emit [(i, Deleting (status_reason st))] (statuses c i pod sts s)"
        by (auto simp: Let_def)
      then show thesis by (rule continue) simp
    next
      case False
      show thesis
      proof (cases r)
        case None
        with match False d have "statuses c i pod (st # sts) s =
            emit [(i, Deleting (status_reason st)),
                  (i, DeletePodCall (Namespace pod) (Name pod) None)] (statuses c i pod sts s')"
          by (auto simp: Let_def)
        then show thesis by (rule continue) simp
      next
        case (Some err)
        show thesis
        proof (cases "IsNotFound err")
          case True
          with match False d Some have "statuses c i pod (st # sts) s =
              emit [(i, Deleting (status_reason st)),
                    (i, DeletePodCall (Namespace pod) (Name pod) (Some err))]
                (statuses c i pod sts s')"
            by (auto simp: Let_def)
          then show thesis by (rule continue) (simp add: True)
        next
          case hard: False
          with match False d Some have "statuses c i pod (st # sts) s =
             (Some (Wrap err (''failed to delete pod '' @ Namespace pod @ ''/'' @ Name pod)), s',
              [(i, Deleting (status_reason st)),
               (i, DeletePodCall (Namespace pod) (Name pod) (Some err))])"
            by (auto simp: Let_def)
          with hard show thesis by (rule leave)
        qed
      qed
    qed
  qed
qed

lemma statuses_hard_failure:
  assumes "(j, DeletePodCall ns n (Some err)) \<in> set (trace (statuses c i pod sts s))"
    and "\<not> IsNotFound err"
  shows "ns = Namespace pod \<and> n = Name pod \<and>
         result (statuses c i pod sts s) =
           Some (Wrap err (''failed to delete pod '' @ Namespace pod @ ''/'' @ Name pod)) \<and>
         last (trace (statuses c i pod sts s)) = (i, DeletePodCall ns n (Some err))"
  using assms
proof (induction sts arbitrary: s)
  case Nil
  then show ?case by simp
next
  case (Cons st sts)
  let ?x = "(j, DeletePodCall ns n (Some err))"
  show ?case
  proof (cases rule: statuses_Cons_cases [of c i pod st sts s j])
    case (continue es s')
    from continue(2) Cons.prems(2) have "?x \<notin> set es" by blast
    with Cons.prems(1) continue(1) have inrest: "?x \<in> set (trace (statuses c i pod sts s'))"
      by simp
    then have "trace (statuses c i pod sts s') \<noteq> []" by auto
    with Cons.IH [OF inrest Cons.prems(2)] continue(1) show ?thesis by simp
  next
    case (leave err' s')
    with Cons.prems(1) show ?thesis by auto
  qed
qed

lemma statuses_error:
  assumes "result (statuses c i pod sts s) = Some e"
  shows "\<exists>err. \<not> IsNotFound err \<and>
           e = Wrap err (''failed to delete pod '' @ Namespace pod @ ''/'' @ Name pod) \<and>
           (i, DeletePodCall (Namespace pod) (Name pod) (Some err))
             \<in> set (trace (statuses c i pod sts s))"
  using assms
proof (induction sts arbitrary: s)
  case Nil
  then show ?case by simp
next
  case (Cons st sts)
  show ?case
  proof (cases rule: statuses_Cons_cases [of c i pod st sts s i])
    case (continue es s')
    with Cons.prems have "result (statuses c i pod sts s') = Some e" by simp
    from Cons.IH [OF this] continue(1) show ?thesis by auto
  next
    case (leave err s')
    with Cons.prems show ?thesis by auto
  qed
qed

lemma pod_body_hard_failure:
  assumes "(j, DeletePodCall ns n (Some err)) \<in> set (trace (pod_body c t i pod s))"
    and "\<not> IsNotFound err"
  shows "ns = Namespace pod \<and> n = Name pod \<and>
         result (pod_body c t i pod s) =
           Some (Wrap err (''failed to delete pod '' @ Namespace pod @ ''/'' @ Name pod)) \<and>
         last (trace (pod_body c t i pod s)) = (i, DeletePodCall ns n (Some err))"
  using assms statuses_hard_failure [of j ns n err c i pod "ContainerStatuses pod" s]
  by (auto simp: pod_body_def split: if_splits)

lemma pod_body_error:
  assumes "result (pod_body c t i pod s) = Some e"
  shows "\<exists>err. \<not> IsNotFound err \<and>
           e = Wrap err (''failed to delete pod '' @ Namespace pod @ ''/'' @ Name pod) \<and>
           (i, DeletePodCall (Namespace pod) (Name pod) (Some err))
             \<in> set (trace (pod_body c t i pod s))"
  using assms statuses_error [of c i pod "ContainerStatuses pod" s e]
  by (auto simp: pod_body_def split: if_splits)

lemma pods_loop_hard_failure:
  assumes "(j, DeletePodCall ns n (Some err)) \<in> set (trace (pods_loop c ctxDone now i pods s))"
    and "\<not> IsNotFound err"
  shows "result (pods_loop c ctxDone now i pods s) =
           Some (Wrap err (''failed to delete pod '' @ ns @ ''/'' @ n)) \<and>
         last (trace (pods_loop c ctxDone now i pods s)) = (j, DeletePodCall ns n (Some err)) \<and>
         list_all (\<lambda>x. fst x \<le> j) (trace (pods_loop c ctxDone now i pods s))"
  using assms
proof (induction pods arbitrary: i s)
  case Nil
  then show ?case by simp
next
  case (Cons pod pods)
  let ?x = "(j, DeletePodCall ns n (Some err))"
  from Cons.prems(1) have nd: "\<not> ctxDone i" by (auto split: if_splits)
  obtain r s' tr where body: "pod_body c (now i) i pod s = (r, s', tr)"
    by (cases "pod_body c (now i) i pod s") auto
  have idx: "\<forall>x \<in> set tr. fst x = i"
    using pod_body_index [of _ _ c "now i" i pod s] body by auto
  show ?case
  proof (cases "?x \<in> set tr")
    case True
    with body have here: "?x \<in> set (trace (pod_body c (now i) i pod s))" by simp
    from idx True have "j = i" by auto
    with pod_body_hard_failure [OF here Cons.prems(2)] body nd idx show ?thesis
      by (auto simp: list_all_iff)
  next
    case False
    with Cons.prems(1) nd body have r: "r = None"
      by (cases r) auto
    with Cons.prems(1) nd body False
    have inrest: "?x \<in> set (trace (pods_loop c ctxDone now (Suc i) pods s'))" by auto
    then have ne: "trace (pods_loop c ctxDone now (Suc i) pods s') \<noteq> []" by auto
    from pods_loop_entry [OF inrest] have "Suc i \<le> j" by simp
    with idx have "\<forall>x \<in> set tr. fst x \<le> j" by auto
    with Cons.IH [OF inrest Cons.prems(2)] nd body r ne show ?thesis
      by (auto simp: list_all_iff)
  qed
qed

lemma pods_loop_error:
  assumes "result (pods_loop c ctxDone now i pods s) = Some e"
  shows "\<exists>j ns n err. \<not> IsNotFound err \<and>
           e = Wrap err (''failed to delete pod '' @ ns @ ''/'' @ n) \<and>
           (j, DeletePodCall ns n (Some err)) \<in> set (trace (pods_loop c ctxDone now i pods s))"
  using assms
proof (induction pods arbitrary: i s)
  case Nil
  then show ?case by simp
next
  case (Cons pod pods)
  from Cons.prems have nd: "\<not> ctxDone i" by (auto split: if_splits)
  obtain r s' tr where body: "pod_body c (now i) i pod s = (r, s', tr)"
    by (cases "pod_body c (now i) i pod s") auto
  show ?case
  proof (cases r)
    case None
    with Cons.prems nd body have "result (pods_loop c ctxDone now (Suc i) pods s') = Some e"
      by simp
    from Cons.IH [OF this] obtain j ns n err where
      "\<not> IsNotFound err" "e = Wrap err (''failed to delete pod '' @ ns @ ''/'' @ n)"
      "(j, DeletePodCall ns n (Some err)) \<in> set (trace (pods_loop c ctxDone now (Suc i) pods s'))"
      by blast
    moreover from this(3) nd body None
    have "(j, DeletePodCall ns n (Some err))
            \<in> set (trace (pods_loop c ctxDone now i (pod # pods) s))" by simp
    ultimately show ?thesis by blast
  next
    case (Some e')
    with Cons.prems nd body have "result (pod_body c (now i) i pod s) = Some e" by simp
    from pod_body_error [OF this] obtain err where
      "\<not> IsNotFound err"
      "e = Wrap err (''failed to delete pod '' @ Namespace pod @ ''/'' @ Name pod)"
      "(i, DeletePodCall (Namespace pod) (Name pod) (Some err))
         \<in> set (trace (pod_body c (now i) i pod s))" by blast
    moreover from this(3) nd body Some
    have "(i, DeletePodCall (Namespace pod) (Name pod) (Some err))
            \<in> set (trace (pods_loop c ctxDone now i (pod # pods) s))" by simp
    ultimately show ?thesis by blast
  qed
qed

lemma once_hard_failure:
  assumes ok: "lister c s (namespace c) (selector c) = Inr pods"
    and x: "(i, DeletePodCall ns n (Some err)) \<in> set (trace (Once c ctxDone now s))"
    and nf: "\<not> IsNotFound err"
  shows "i < length pods \<and> ns = Namespace (pods ! i) \<and> n = Name (pods ! i) \<and>
         result (Once c ctxDone now s) =
           Some (Wrap err (''failed to delete pod '' @ Namespace (pods ! i) @ ''/'' @
                           Name (pods ! i))) \<and>
         last (trace (Once c ctxDone now s)) = (i, DeletePodCall ns n (Some err)) \<and>
         list_all (\<lambda>x. fst x \<le> i) (trace (Once c ctxDone now s))"
proof -
  have out: "Once c ctxDone now s = pods_loop c ctxDone now 0 pods s"
    using ok by (simp add: Once_def)
  from once_entry [OF ok x] obtain s0 where i: "i < length pods"
    and "(i, DeletePodCall ns n (Some err)) \<in> set (trace (pod_body c (now i) i (pods ! i) s0))"
    by blast
  from pod_body_hard_failure [OF this(2) nf]
  have "ns = Namespace (pods ! i)" "n = Name (pods ! i)" by simp_all
  with i pods_loop_hard_failure [OF x [unfolded out] nf] show ?thesis
    by (simp add: out)
qed

lemma once_error:
  assumes ok: "lister c s (namespace c) (selector c) = Inr pods"
    and e: "result (Once c ctxDone now s) = Some e"
  shows "\<exists>j err'. j < length pods \<and> \<not> IsNotFound err' \<and>
           e = Wrap err' (''failed to delete pod '' @ Namespace (pods ! j) @ ''/'' @
                          Name (pods ! j)) \<and>
           (j, DeletePodCall (Namespace (pods ! j)) (Name (pods ! j)) (Some err'))
             \<in> set (trace (Once c ctxDone now s)) \<and>
           last (trace (Once c ctxDone now s)) =
             (j, DeletePodCall (Namespace (pods ! j)) (Name (pods ! j)) (Some err'))"
proof -
  have out: "Once c ctxDone now s = pods_loop c ctxDone now 0 pods s"
    using ok by (simp add: Once_def)
  from e pods_loop_error [of c ctxDone now 0 pods s e] obtain j ns n err' where
    nf: "\<not> IsNotFound err'" and w: "e = Wrap err' (''failed to delete pod '' @ ns @ ''/'' @ n)"
    and x: "(j, DeletePodCall ns n (Some err')) \<in> set (trace (Once c ctxDone now s))"
    by (auto simp: out)
  from once_hard_failure [OF ok x nf] w nf x show ?thesis by blast
qed



section \<open>Cancellation\<close>

lemma pods_loop_take:
  assumes "ctxDone (i + k)"
  shows "pods_loop c ctxDone now i pods s = pods_loop c ctxDone now i (take k pods) s"
  using assms
proof (induction pods arbitrary: i k s)
  case Nil
  show ?case by simp
next
  case (Cons pod pods)
  show ?case
  proof (cases k)
    case 0
    with Cons.prems show ?thesis by simp
  next
    case (Suc k')
    with Cons.prems have d: "ctxDone (Suc i + k')" by simp
    from Suc show ?thesis by (simp add: Cons.IH [OF d] split: prod.splits option.splits)
  qed
qed

text \<open>
  C7. The context is looked at once per pod, before anything is done for that pod. When
  the listing succeeds and the context is found cancelled at the check before the pod at
  position \<open>k\<close>, the pass is the pass over the \<open>k\<close> pods before it and no more: its trace
  has no entry for a pod at position \<open>k\<close> or later, and with \<open>k = 0\<close> it returns nil with an
  empty trace and the cluster as it was. The cancellation is never the cause of an error:
  if the pass returns one, it is the wrapped error of a deletion, other than NotFound, that
  failed for a pod before position \<open>k\<close>, and that failed call is the last entry of the trace.
\<close>

theorem cancellation_stops_pass:
  assumes "lister c s (namespace c) (selector c) = Inr pods" and "ctxDone k"
  shows "Once c ctxDone now s = pods_loop c ctxDone now 0 (take k pods) s \<and>
         list_all (\<lambda>x. fst x < k) (trace (Once c ctxDone now s)) \<and>
         (k = 0 \<longrightarrow> Once c ctxDone now s = (None, s, [])) \<and>
         (result (Once c ctxDone now s) = Some e \<longrightarrow>
            (\<exists>j err. j < k \<and> j < length pods \<and> \<not> IsNotFound err \<and>
               e = Wrap err (''failed to delete pod '' @ Namespace (pods ! j) @ ''/'' @
                             Name (pods ! j)) \<and>
               last (trace (Once c ctxDone now s)) =
                 (j, DeletePodCall (Namespace (pods ! j)) (Name (pods ! j)) (Some err))))"
proof -
  let ?out = "Once c ctxDone now s"
  have cut: "?out = pods_loop c ctxDone now 0 (take k pods) s"
    using assms pods_loop_take [of ctxDone 0 k c now pods s] by (simp add: Once_def)
  have before: "j < k" if "(j, x) \<in> set (trace ?out)" for j x
    using pods_loop_entry [of j x c ctxDone now 0 "take k pods" s] that by (simp add: cut)
  then have untouched: "list_all (\<lambda>x. fst x < k) (trace ?out)"
    by (auto simp: list_all_iff)
  have first: "?out = (None, s, [])" if "k = 0"
    using that by (simp add: cut)
  have err: "\<exists>j err. j < k \<and> j < length pods \<and> \<not> IsNotFound err \<and>
               e = Wrap err (''failed to delete pod '' @ Namespace (pods ! j) @ ''/'' @
                             Name (pods ! j)) \<and>
               last (trace ?out) =
                 (j, DeletePodCall (Namespace (pods ! j)) (Name (pods ! j)) (Some err))"
    if "result ?out = Some e"
  proof -
    from once_error [OF assms(1) that] obtain j err where
      j: "j < length pods" "\<not> IsNotFound err"
         "e = Wrap err (''failed to delete pod '' @ Namespace (pods ! j) @ ''/'' @
                        Name (pods ! j))"
         "(j, DeletePodCall (Namespace (pods ! j)) (Name (pods ! j)) (Some err))
            \<in> set (trace ?out)"
         "last (trace ?out) =
            (j, DeletePodCall (Namespace (pods ! j)) (Name (pods ! j)) (Some err))"
      by blast
    from before [OF j(4)] j show ?thesis by blast
  qed
  from cut untouched first err show ?thesis by blast
qed

theorem cancellation_stops_pass_witness:
  "Once testController (\<lambda>i. 1 \<le> i) (\<lambda>i. testNow)
     [makePod testNow Hour ''default'' ''pod0'' PodRunning ''Terminated'' ''CrashLoopBackOff'',
      makePod testNow (Hour * 3) ''default'' ''pod1'' PodRunning ''Terminated'' ''CrashLoopBackOff'',
      makePod testNow (Hour * 3) ''default'' ''pod2'' PodRunning ''Terminated'' ''CrashLoopBackOff'']
   = (None,
      [makePod testNow (Hour * 3) ''default'' ''pod1'' PodRunning ''Terminated'' ''CrashLoopBackOff'',
       makePod testNow (Hour * 3) ''default'' ''pod2'' PodRunning ''Terminated'' ''CrashLoopBackOff''],
      [(0, Deleting ''CrashLoopBackOff''), (0, DeletePodCall ''default'' ''pod0'' None)]) \<and>
   Once testController (\<lambda>i. True) (\<lambda>i. testNow)
     [makePod testNow Hour ''default'' ''pod0'' PodRunning ''Terminated'' ''CrashLoopBackOff'']
   = (None,
      [makePod testNow Hour ''default'' ''pod0'' PodRunning ''Terminated'' ''CrashLoopBackOff''],
      [])"
proof -
  let ?pods = "[makePod testNow Hour ''default'' ''pod0'' PodRunning ''Terminated'' ''CrashLoopBackOff'',
      makePod testNow (Hour * 3) ''default'' ''pod1'' PodRunning ''Terminated'' ''CrashLoopBackOff'',
      makePod testNow (Hour * 3) ''default'' ''pod2'' PodRunning ''Terminated'' ''CrashLoopBackOff'']"
  let ?one = "[makePod testNow Hour ''default'' ''pod0'' PodRunning ''Terminated''
                 ''CrashLoopBackOff'']"
  have l: "lister testController ?pods (namespace testController) (selector testController)
             = Inr ?pods"
    by (simp add: testController_def testListPods_def)
  have l1: "lister testController ?one (namespace testController) (selector testController)
             = Inr ?one"
    by (simp add: testController_def testListPods_def)
  from cancellation_stops_pass
    [where ctxDone = "\<lambda>i. 1 \<le> i" and k = 1 and now = "\<lambda>i. testNow", OF l]
  have "Once testController (\<lambda>i. 1 \<le> i) (\<lambda>i. testNow) ?pods =
          pods_loop testController (\<lambda>i. 1 \<le> i) (\<lambda>i. testNow) 0 (take 1 ?pods)
            ?pods"
    by blast
  then have cut: "Once testController (\<lambda>i. 1 \<le> i) (\<lambda>i. testNow) ?pods
   = (None,
      [makePod testNow (Hour * 3) ''default'' ''pod1'' PodRunning ''Terminated'' ''CrashLoopBackOff'',
       makePod testNow (Hour * 3) ''default'' ''pod2'' PodRunning ''Terminated'' ''CrashLoopBackOff''],
      [(0, Deleting ''CrashLoopBackOff''), (0, DeletePodCall ''default'' ''pod0'' None)])"
    by (simp add: fixture_defs pass_defs)
  from cancellation_stops_pass
    [where ctxDone = "\<lambda>i. True" and k = 0 and now = "\<lambda>i. testNow", OF l1]
  have "Once testController (\<lambda>i. True) (\<lambda>i. testNow) ?one = (None, ?one, [])"
    by blast
  with cut show ?thesis by blast
qed

section \<open>Dry-run mode\<close>

lemma decisions_simps [simp]:
  "decisions [] = []"
  "decisions (tr @ tr') = decisions tr @ decisions tr'"
  "decisions ((i, DeletePodCall ns n r) # tr) = decisions tr"
  "decisions ((i, Deleting x) # tr) = (i, Deleting x) # decisions tr"
  "decisions ((i, SkipReason x) # tr) = (i, SkipReason x) # decisions tr"
  "decisions ((i, SkipPodPhase ph) # tr) = (i, SkipPodPhase ph) # decisions tr"
  "decisions ((i, SkipCreationTimestamp t) # tr) = (i, SkipCreationTimestamp t) # decisions tr"
  by (simp_all add: decisions_def)

lemma statuses_dry_run:
  assumes "dryRun c"
  shows "statuses c i pod sts s =
           (None, s,
            map (\<lambda>st. if reasonsMap c (status_reason st) = None
                       then (i, SkipReason (status_reason st))
                       else (i, Deleting (status_reason st))) sts)"
  using assms by (induction sts) (simp_all add: Let_def)

lemma statuses_soft:
  assumes soft: "\<forall>s ns n err s'. d s ns n = (Some err, s') \<longrightarrow> IsNotFound err"
  shows "result (statuses (c\<lparr>dryRun := False, deleter := d\<rparr>) i pod sts s) = None \<and>
         decisions (trace (statuses (c\<lparr>dryRun := False, deleter := d\<rparr>) i pod sts s)) =
            map (\<lambda>st. if reasonsMap c (status_reason st) = None
                       then (i, SkipReason (status_reason st))
                       else (i, Deleting (status_reason st))) sts"
proof (induction sts arbitrary: s)
  case Nil
  show ?case by simp
next
  case (Cons st sts)
  let ?c = "c\<lparr>dryRun := False, deleter := d\<rparr>"
  obtain r s' where d: "d s (Namespace pod) (Name pod) = (r, s')"
    by (cases "d s (Namespace pod) (Name pod)") auto
  show ?case
  proof (cases "reasonsMap c (status_reason st) = None")
    case True
    with Cons.IH [of s] show ?thesis by (simp add: Let_def)
  next
    case False
    show ?thesis
    proof (cases r)
      case None
      with False d Cons.IH [of s'] show ?thesis by (auto simp: Let_def)
    next
      case (Some err)
      with soft d have "IsNotFound err" by blast
      with Some False d Cons.IH [of s'] show ?thesis by (auto simp: Let_def)
    qed
  qed
qed

lemma pods_loop_dry_run:
  assumes "dryRun c"
    and soft: "\<forall>s ns n err s'. d s ns n = (Some err, s') \<longrightarrow> IsNotFound err"
  shows "result (pods_loop c ctxDone now i pods s) = None \<and>
         final (pods_loop c ctxDone now i pods s) = s \<and>
         decisions (trace (pods_loop c ctxDone now i pods s)) = trace (pods_loop c ctxDone now i pods s) \<and>
         result (pods_loop (c\<lparr>dryRun := False, deleter := d\<rparr>) ctxDone now i pods s') = None \<and>
         decisions (trace (pods_loop (c\<lparr>dryRun := False, deleter := d\<rparr>) ctxDone now i pods s')) =
           trace (pods_loop c ctxDone now i pods s)"
proof (induction pods arbitrary: i s')
  case Nil
  show ?case by simp
next
  case (Cons pod pods)
  let ?c = "c\<lparr>dryRun := False, deleter := d\<rparr>"
  let ?line = "\<lambda>st. if reasonsMap c (status_reason st) = None
                       then (i, SkipReason (status_reason st))
                       else (i, Deleting (status_reason st))"
  show ?case
  proof (cases "ctxDone i")
    case True
    then show ?thesis by simp
  next
    case nd: False
    show ?thesis
    proof (cases "Phase pod = PodPending \<or> Phase pod = PodSucceeded \<or> Phase pod = PodUnknown")
      case True
      then have "pod_body c (now i) i pod s = (None, s, [(i, SkipPodPhase (Phase pod))])"
        "pod_body ?c (now i) i pod s' = (None, s', [(i, SkipPodPhase (Phase pod))])"
        by (simp_all add: pod_body_def)
      with nd Cons.IH [of "Suc i" s'] show ?thesis by simp
    next
      case ph: False
      show ?thesis
      proof (cases "now i < CreationTimestamp pod + grace c")
        case True
        with ph have "pod_body c (now i) i pod s =
             (None, s, [(i, SkipCreationTimestamp (CreationTimestamp pod))])"
          "pod_body ?c (now i) i pod s' =
             (None, s', [(i, SkipCreationTimestamp (CreationTimestamp pod))])"
          by (simp_all add: pod_body_def)
        with nd Cons.IH [of "Suc i" s'] show ?thesis by simp
      next
        case False
        with ph have dry: "pod_body c (now i) i pod s = (None, s, map ?line (ContainerStatuses pod))"
          by (simp add: pod_body_def statuses_dry_run [OF assms(1)])
        have dl: "decisions (map ?line sts) = map ?line sts" for sts
          by (induction sts) simp_all
        obtain r s'' tr where n: "pod_body ?c (now i) i pod s' = (r, s'', tr)"
          by (cases "pod_body ?c (now i) i pod s'") auto
        from False ph have "pod_body ?c (now i) i pod s' = statuses ?c i pod (ContainerStatuses pod) s'"
          by (simp add: pod_body_def)
        with statuses_soft [OF soft, of c i pod "ContainerStatuses pod" s'] n
        have "r = None" "decisions tr = map ?line (ContainerStatuses pod)" by simp_all
        with nd dry n dl Cons.IH [of "Suc i" s''] show ?thesis by simp
      qed
    qed
  qed
qed

lemma decisions_id_calls:
  assumes "decisions tr = tr"
  shows "calls tr = []"
proof -
  from assms have "\<forall>x \<in> set tr. \<not> is_delete (snd x)"
    by (simp add: decisions_def filter_id_conv)
  then show ?thesis by (simp add: calls_def filter_empty_conv)
qed

text \<open>
  C8. In dry-run mode a pass never calls \<^verbatim>\<open>DeletePod\<close> and leaves the cluster as it was,
  and when the listing succeeds it returns nil. It decides as the normal mode does: for any
  deleter \<open>d\<close> whose only failures are NotFound, the pass in normal mode with \<open>d\<close>, started
  on the same cluster with the same clock and context, returns the same result and logs
  the same lines, in the same order, as the dry-run pass.
\<close>

theorem dry_run_issues_no_deletion:
  assumes "dryRun c"
  shows "calls (trace (Once c ctxDone now s)) = [] \<and> final (Once c ctxDone now s) = s \<and>
         (lister c s (namespace c) (selector c) = Inr pods \<longrightarrow>
            result (Once c ctxDone now s) = None) \<and>
         ((\<forall>s ns n err s'. d s ns n = (Some err, s') \<longrightarrow> IsNotFound err) \<longrightarrow>
            result (Once (c\<lparr>dryRun := False, deleter := d\<rparr>) ctxDone now s) =
              result (Once c ctxDone now s) \<and>
            decisions (trace (Once (c\<lparr>dryRun := False, deleter := d\<rparr>) ctxDone now s)) =
              trace (Once c ctxDone now s))"
proof -
  let ?out = "Once c ctxDone now s"
  have always: "\<forall>s ns n err s'. (\<lambda>s ns n. (None, s)) s ns n = (Some err, s') \<longrightarrow> IsNotFound err"
    by simp
  have quiet: "calls (trace ?out) = [] \<and> final ?out = s"
  proof (cases "lister c s (namespace c) (selector c)")
    case (Inl err)
    then show ?thesis by (simp add: Once_def calls_def)
  next
    case (Inr ps)
    with pods_loop_dry_run [OF assms always, of ctxDone now 0 ps s s] show ?thesis
      by (simp add: Once_def decisions_id_calls)
  qed
  have completes: "result ?out = None" if "lister c s (namespace c) (selector c) = Inr pods"
    using that pods_loop_dry_run [OF assms always, of ctxDone now 0 pods s s]
    by (simp add: Once_def)
  have same: "result (Once (c\<lparr>dryRun := False, deleter := d\<rparr>) ctxDone now s) = result ?out \<and>
            decisions (trace (Once (c\<lparr>dryRun := False, deleter := d\<rparr>) ctxDone now s)) =
              trace ?out"
    if soft: "\<forall>s ns n err s'. d s ns n = (Some err, s') \<longrightarrow> IsNotFound err"
  proof (cases "lister c s (namespace c) (selector c)")
    case (Inl err)
    then show ?thesis by (simp add: Once_def)
  next
    case (Inr ps)
    with pods_loop_dry_run [OF assms soft, of ctxDone now 0 ps s s] show ?thesis
      by (simp add: Once_def)
  qed
  from quiet completes same show ?thesis by blast
qed

theorem dry_run_issues_no_deletion_witness:
  "Once (testController\<lparr>dryRun := True\<rparr>) (\<lambda>i. False) (\<lambda>i. testNow)
     [makePod testNow Hour ''default'' ''pod0'' PodRunning ''Terminated'' ''CrashLoopBackOff'',
      makePod testNow Minute ''default'' ''pod1'' PodRunning ''Terminated'' ''CrashLoopBackOff'',
      makePod testNow (Hour * 3) ''default'' ''pod2'' PodFailed ''Waiting'' ''Error'']
   = (None,
      [makePod testNow Hour ''default'' ''pod0'' PodRunning ''Terminated'' ''CrashLoopBackOff'',
       makePod testNow Minute ''default'' ''pod1'' PodRunning ''Terminated'' ''CrashLoopBackOff'',
       makePod testNow (Hour * 3) ''default'' ''pod2'' PodFailed ''Waiting'' ''Error''],
      [(0, Deleting ''CrashLoopBackOff''), (1, SkipCreationTimestamp (testNow - Minute)),
       (2, Deleting ''Error'')]) \<and>
   decisions (trace (Once testController (\<lambda>i. False) (\<lambda>i. testNow)
     [makePod testNow Hour ''default'' ''pod0'' PodRunning ''Terminated'' ''CrashLoopBackOff'',
      makePod testNow Minute ''default'' ''pod1'' PodRunning ''Terminated'' ''CrashLoopBackOff'',
      makePod testNow (Hour * 3) ''default'' ''pod2'' PodFailed ''Waiting'' ''Error'']))
   = [(0, Deleting ''CrashLoopBackOff''), (1, SkipCreationTimestamp (testNow - Minute)),
      (2, Deleting ''Error'')]"
proof -
  let ?c = "testController\<lparr>dryRun := True\<rparr>"
  let ?pods = "[makePod testNow Hour ''default'' ''pod0'' PodRunning ''Terminated'' ''CrashLoopBackOff'',
      makePod testNow Minute ''default'' ''pod1'' PodRunning ''Terminated'' ''CrashLoopBackOff'',
      makePod testNow (Hour * 3) ''default'' ''pod2'' PodFailed ''Waiting'' ''Error'']"
  have dry: "dryRun ?c" by simp
  have soft: "\<forall>s ns n err s'. testDeletePod s ns n = (Some err, s') \<longrightarrow> IsNotFound err"
    by (simp add: testDeletePod_def)
  have restored: "testController\<lparr>dryRun := False, deleter := testDeletePod\<rparr> = testController"
    by (simp add: testController_def)
  have run: "Once ?c (\<lambda>i. False) (\<lambda>i. testNow) ?pods
    = (None, ?pods,
      [(0, Deleting ''CrashLoopBackOff''), (1, SkipCreationTimestamp (testNow - Minute)),
       (2, Deleting ''Error'')])"
    by (simp add: fixture_defs pass_defs)
  from dry_run_issues_no_deletion [OF dry, of "\<lambda>i. False" "\<lambda>i. testNow" ?pods ?pods testDeletePod] soft
  have "decisions (trace (Once (?c\<lparr>dryRun := False, deleter := testDeletePod\<rparr>)
                    (\<lambda>i. False) (\<lambda>i. testNow) ?pods)) =
        trace (Once ?c (\<lambda>i. False) (\<lambda>i. testNow) ?pods)"
    by blast
  with run show ?thesis by (simp add: restored)
qed

section \<open>The loop and its stop signal\<close>

lemma ran_simps [simp]:
  "returned (ran p run) = returned run" "cancelled (ran p run) = cancelled run"
  "cluster (ran p run) = cluster run" "passes (ran p run) = p # passes run"
  by (simp_all add: ran_def)

lemma wait_loop_run:
  "(\<forall>p \<in> set (butlast (passes (wait_loop c clock k evs s))). fst p = None) \<and>
   length (passes (wait_loop c clock k evs s)) \<le> ticks evs \<and>
   (\<forall>e'. returned (wait_loop c clock k evs s) = Returns (Some e') \<longleftrightarrow>
      passes (wait_loop c clock k evs s) \<noteq> [] \<and>
      (\<exists>e. fst (last (passes (wait_loop c clock k evs s))) = Some e \<and>
           e' = Wrap e ''failed to run'')) \<and>
   (passes (wait_loop c clock k evs s) = [] \<or>
    fst (last (passes (wait_loop c clock k evs s))) = None \<longrightarrow>
      length (passes (wait_loop c clock k evs s)) = ticks evs \<and>
      returned (wait_loop c clock k evs s) =
        (if StopSignal \<in> set evs then Returns None else InSelect) \<and>
      cancelled (wait_loop c clock k evs s) = (StopSignal \<in> set evs))"
proof (induction evs arbitrary: k s)
  case Nil
  show ?case by (simp add: ticks_def)
next
  case (Cons ev evs)
  show ?case
  proof (cases ev)
    case StopSignal
    then show ?thesis by (simp add: ticks_def)
  next
    case Tick
    obtain r s' tr where once: "Once c (\<lambda>i. False) (clock k) s = (r, s', tr)"
      by (cases "Once c (\<lambda>i. False) (clock k) s") auto
    show ?thesis
    proof (cases r)
      case (Some err)
      with Tick once show ?thesis by (auto simp: ticks_def)
    next
      case None
      let ?w = "wait_loop c clock (Suc k) evs s'"
      have w: "wait_loop c clock k (ev # evs) s = ran (None, tr) ?w"
        using Tick once None by simp
      have t: "ticks (ev # evs) = Suc (ticks evs)"
        using Tick by (simp add: ticks_def)
      have m: "StopSignal \<in> set (ev # evs) \<longleftrightarrow> StopSignal \<in> set evs"
        using Tick by simp
      from Cons.IH [of "Suc k" s'] show ?thesis
        unfolding w t m by (cases "passes ?w = []") simp_all
    qed
  qed
qed

lemma wait_loop_shift:
  "wait_loop c clock (k + m) evs s = wait_loop c (\<lambda>j. clock (k + j)) m evs s"
proof (induction evs arbitrary: m s)
  case Nil
  show ?case by simp
next
  case (Cons ev evs)
  show ?case
  proof (cases ev)
    case Tick
    from Cons.IH [of "Suc m"] Tick show ?thesis
      by (simp split: prod.splits option.splits)
  next
    case StopSignal
    then show ?thesis by simp
  qed
qed

lemma Loop_Tick:
  assumes "0 < interval c" and "result (Once c (\<lambda>i. False) (clock 0) s) = None"
  shows "Loop c clock (Tick # evs) s =
           ran (None, trace (Once c (\<lambda>i. False) (clock 0) s))
             (Loop c (\<lambda>k. clock (Suc k)) evs (final (Once c (\<lambda>i. False) (clock 0) s)))"
proof -
  obtain s' tr where first: "Once c (\<lambda>i. False) (clock 0) s = (None, s', tr)"
    using assms(2) by (cases "Once c (\<lambda>i. False) (clock 0) s") auto
  have "wait_loop c clock 1 (Tick # evs) s' = Loop c (\<lambda>k. clock (Suc k)) evs s'"
    using wait_loop_shift [of c clock 1 1 evs] assms(1)
    by (simp add: Loop_def split: prod.splits option.splits)
  with first assms(1) show ?thesis by (simp add: Loop_def)
qed

lemma all_butlast_last:
  assumes "xs \<noteq> []" and "\<forall>p \<in> set (butlast xs). P p" and "P (last xs)"
  shows "\<forall>p \<in> set xs. P p"
  using assms by (induction xs) (auto split: if_splits)

text \<open>
  C9. \<^verbatim>\<open>Loop\<close> starts with a pass, whatever the selects will take. If that first pass
  returns an error, \<^verbatim>\<open>Loop\<close> returns it wrapped with ``failed to run'' and has run that pass
  only. If it returns nil and the interval is positive (so that there is a ticker), a tick
  is followed by all that \<^verbatim>\<open>Loop\<close> does from its start (a pass, then the select again), and
  a stop signal makes \<^verbatim>\<open>Loop\<close> cancel the context and return nil. So, with a positive
  interval: every pass but the last has returned nil (a failed pass is never followed by
  another one); there is at most one pass per tick taken before the first stop signal,
  after the first pass; \<^verbatim>\<open>Loop\<close> returns an error exactly when its last pass has returned
  one, and it is that error wrapped; when the last pass has returned nil there was one pass
  per tick, and \<^verbatim>\<open>Loop\<close> has returned, with nil and the context cancelled, exactly when
  a stop signal was received; and when \<^verbatim>\<open>Loop\<close> returns nil, a stop signal was received,
  the context is cancelled and every pass has returned nil.
\<close>

theorem loop_lifecycle:
  "passes (Loop c clock evs s) \<noteq> [] \<and>
   hd (passes (Loop c clock evs s)) =
     (result (Once c (\<lambda>i. False) (clock 0) s), trace (Once c (\<lambda>i. False) (clock 0) s)) \<and>
   (result (Once c (\<lambda>i. False) (clock 0) s) = Some e \<longrightarrow>
      returned (Loop c clock evs s) = Returns (Some (Wrap e ''failed to run'')) \<and>
      passes (Loop c clock evs s) = [(Some e, trace (Once c (\<lambda>i. False) (clock 0) s))]) \<and>
   (0 < interval c \<longrightarrow>
     (result (Once c (\<lambda>i. False) (clock 0) s) = None \<longrightarrow>
        Loop c clock (Tick # evs) s =
          ran (None, trace (Once c (\<lambda>i. False) (clock 0) s))
            (Loop c (\<lambda>k. clock (Suc k)) evs (final (Once c (\<lambda>i. False) (clock 0) s))) \<and>
        Loop c clock (StopSignal # evs) s =
          \<lparr>returned = Returns None, cancelled = True,
           cluster = final (Once c (\<lambda>i. False) (clock 0) s),
           passes = [(None, trace (Once c (\<lambda>i. False) (clock 0) s))]\<rparr>) \<and>
     (\<forall>p \<in> set (butlast (passes (Loop c clock evs s))). fst p = None) \<and>
     length (passes (Loop c clock evs s)) \<le> 1 + ticks evs \<and>
     (\<forall>e'. returned (Loop c clock evs s) = Returns (Some e') \<longleftrightarrow>
        (\<exists>e. fst (last (passes (Loop c clock evs s))) = Some e \<and>
             e' = Wrap e ''failed to run'')) \<and>
     (fst (last (passes (Loop c clock evs s))) = None \<longrightarrow>
        length (passes (Loop c clock evs s)) = 1 + ticks evs \<and>
        returned (Loop c clock evs s) =
          (if StopSignal \<in> set evs then Returns None else InSelect) \<and>
        cancelled (Loop c clock evs s) = (StopSignal \<in> set evs)) \<and>
     (returned (Loop c clock evs s) = Returns None \<longrightarrow>
        StopSignal \<in> set evs \<and> cancelled (Loop c clock evs s) \<and>
        (\<forall>p \<in> set (passes (Loop c clock evs s)). fst p = None)))"
proof -
  let ?first = "Once c (\<lambda>i. False) (clock 0) s"
  let ?L = "Loop c clock evs s"
  obtain r s' tr where first: "?first = (r, s', tr)"
    by (cases ?first) auto
  let ?w = "wait_loop c clock 1 evs s'"
  note w = wait_loop_run [of c clock 1 evs s']
  note w1 = w [THEN conjunct1]
  note w2 = w [THEN conjunct2, THEN conjunct1]
  note w3 = w [THEN conjunct2, THEN conjunct2, THEN conjunct1]
  note w4 = w [THEN conjunct2, THEN conjunct2, THEN conjunct2]
  have S1: "passes ?L \<noteq> []"
    by (cases r) (simp_all add: Loop_def first)
  have S2: "hd (passes ?L) = (result ?first, trace ?first)"
    by (cases r) (simp_all add: Loop_def first)
  have A: "result ?first = Some e \<longrightarrow>
      returned ?L = Returns (Some (Wrap e ''failed to run'')) \<and>
      passes ?L = [(Some e, trace ?first)]"
    by (simp add: Loop_def first)
  have ticking: "(result ?first = None \<longrightarrow>
        Loop c clock (Tick # evs) s =
          ran (None, trace ?first) (Loop c (\<lambda>k. clock (Suc k)) evs (final ?first)) \<and>
        Loop c clock (StopSignal # evs) s =
          \<lparr>returned = Returns None, cancelled = True, cluster = final ?first,
           passes = [(None, trace ?first)]\<rparr>) \<and>
     (\<forall>p \<in> set (butlast (passes ?L)). fst p = None) \<and>
     length (passes ?L) \<le> 1 + ticks evs \<and>
     (\<forall>e'. returned ?L = Returns (Some e') \<longleftrightarrow>
        (\<exists>e. fst (last (passes ?L)) = Some e \<and> e' = Wrap e ''failed to run'')) \<and>
     (fst (last (passes ?L)) = None \<longrightarrow>
        length (passes ?L) = 1 + ticks evs \<and>
        returned ?L = (if StopSignal \<in> set evs then Returns None else InSelect) \<and>
        cancelled ?L = (StopSignal \<in> set evs)) \<and>
     (returned ?L = Returns None \<longrightarrow>
        StopSignal \<in> set evs \<and> cancelled ?L \<and> (\<forall>p \<in> set (passes ?L). fst p = None))"
    if pos: "0 < interval c"
  proof -
    have L: "?L = (case r of
        Some err \<Rightarrow> \<lparr>returned = Returns (Some (Wrap err ''failed to run'')), cancelled = True,
                      cluster = s', passes = [(Some err, tr)]\<rparr>
      | None \<Rightarrow> ran (None, tr) ?w)"
      using first pos by (simp add: Loop_def split: option.splits)
    have step: "Loop c clock (Tick # evs) s =
          ran (None, trace ?first) (Loop c (\<lambda>k. clock (Suc k)) evs (final ?first)) \<and>
        Loop c clock (StopSignal # evs) s =
          \<lparr>returned = Returns None, cancelled = True, cluster = final ?first,
           passes = [(None, trace ?first)]\<rparr>" if ok: "result ?first = None"
    proof -
      from ok first pos have "Loop c clock (StopSignal # evs) s =
          \<lparr>returned = Returns None, cancelled = True, cluster = final ?first,
           passes = [(None, trace ?first)]\<rparr>"
        by (simp add: Loop_def ran_def)
      with Loop_Tick [of c clock s evs] pos ok show ?thesis by simp
    qed
    have noretry: "\<forall>p \<in> set (butlast (passes ?L)). fst p = None"
      using w1 by (cases r; cases "passes ?w = []") (simp_all add: L)
    have bound: "length (passes ?L) \<le> 1 + ticks evs"
      using w2 by (cases r) (simp_all add: L)
    have error: "returned ?L = Returns (Some e') \<longleftrightarrow>
        (\<exists>e. fst (last (passes ?L)) = Some e \<and> e' = Wrap e ''failed to run'')" for e'
    proof (cases r)
      case (Some err)
      then show ?thesis by (auto simp: L)
    next
      case None
      from w3 have "returned ?w = Returns (Some e') \<longleftrightarrow>
        passes ?w \<noteq> [] \<and>
        (\<exists>e. fst (last (passes ?w)) = Some e \<and> e' = Wrap e ''failed to run'')"
        by blast
      with None show ?thesis by (cases "passes ?w = []") (simp_all add: L)
    qed
    have clean: "length (passes ?L) = 1 + ticks evs \<and>
        returned ?L = (if StopSignal \<in> set evs then Returns None else InSelect) \<and>
        cancelled ?L = (StopSignal \<in> set evs)" if l: "fst (last (passes ?L)) = None"
    proof (cases r)
      case (Some err)
      with l show ?thesis by (simp add: L)
    next
      case None
      with l have "passes ?w = [] \<or> fst (last (passes ?w)) = None"
        by (cases "passes ?w = []") (simp_all add: L)
      with w4 have "length (passes ?w) = ticks evs \<and>
        returned ?w = (if StopSignal \<in> set evs then Returns None else InSelect) \<and>
        cancelled ?w = (StopSignal \<in> set evs)" by blast
      with None show ?thesis by (simp add: L)
    qed
    have stopped: "StopSignal \<in> set evs \<and> cancelled ?L \<and>
        (\<forall>p \<in> set (passes ?L). fst p = None)"
      if st: "returned ?L = Returns None"
    proof -
      have l: "fst (last (passes ?L)) = None"
      proof (cases "fst (last (passes ?L))")
        case None
        then show ?thesis .
      next
        case (Some e0)
        with error [of "Wrap e0 ''failed to run''"] st show ?thesis by simp
      qed
      from clean [OF l] st have s1: "StopSignal \<in> set evs" "cancelled ?L"
        by (simp_all split: if_splits)
      from all_butlast_last [of "passes ?L" "\<lambda>p. fst p = None", OF S1 noretry l]
      have "\<forall>p \<in> set (passes ?L). fst p = None" .
      with s1 show ?thesis by simp
    qed
    from step have B: "result ?first = None \<longrightarrow>
        Loop c clock (Tick # evs) s =
          ran (None, trace ?first) (Loop c (\<lambda>k. clock (Suc k)) evs (final ?first)) \<and>
        Loop c clock (StopSignal # evs) s =
          \<lparr>returned = Returns None, cancelled = True, cluster = final ?first,
           passes = [(None, trace ?first)]\<rparr>" by (rule impI)
    from error have C: "\<forall>e'. returned ?L = Returns (Some e') \<longleftrightarrow>
        (\<exists>e. fst (last (passes ?L)) = Some e \<and> e' = Wrap e ''failed to run'')" by (rule allI)
    from clean have D: "fst (last (passes ?L)) = None \<longrightarrow>
        length (passes ?L) = 1 + ticks evs \<and>
        returned ?L = (if StopSignal \<in> set evs then Returns None else InSelect) \<and>
        cancelled ?L = (StopSignal \<in> set evs)" by (rule impI)
    from stopped have E: "returned ?L = Returns None \<longrightarrow>
        StopSignal \<in> set evs \<and> cancelled ?L \<and> (\<forall>p \<in> set (passes ?L). fst p = None)"
      by (rule impI)
    show ?thesis
      by (rule conjI [OF B], rule conjI [OF noretry], rule conjI [OF bound],
          rule conjI [OF C], rule conjI [OF D], rule E)
  qed
  show ?thesis
    by (rule conjI [OF S1], rule conjI [OF S2], rule conjI [OF A], rule impI, rule ticking)
qed

theorem loop_lifecycle_witness:
  "returned (Loop (testController\<lparr>deleter := flakyDeletePod\<rparr>) (\<lambda>k i. testNow) [Tick, Tick]
     [makePod testNow Hour ''default'' ''locked'' PodRunning ''Terminated'' ''Error''])
   = Returns (Some (Wrap (Wrap (StatusError ''Forbidden'')
                            ''failed to delete pod default/locked'') ''failed to run'')) \<and>
   length (passes (Loop (testController\<lparr>deleter := flakyDeletePod\<rparr>) (\<lambda>k i. testNow) [Tick, Tick]
     [makePod testNow Hour ''default'' ''locked'' PodRunning ''Terminated'' ''Error''])) = 1 \<and>
   returned (Loop testController (\<lambda>k i. testNow) [Tick, StopSignal, Tick]
     [makePod testNow Hour ''default'' ''pod0'' PodRunning ''Terminated'' ''Error''])
   = Returns None \<and>
   cancelled (Loop testController (\<lambda>k i. testNow) [Tick, StopSignal, Tick]
     [makePod testNow Hour ''default'' ''pod0'' PodRunning ''Terminated'' ''Error'']) \<and>
   length (passes (Loop testController (\<lambda>k i. testNow) [Tick, StopSignal, Tick]
     [makePod testNow Hour ''default'' ''pod0'' PodRunning ''Terminated'' ''Error''])) = 2"
proof -
  let ?c = "testController\<lparr>deleter := flakyDeletePod\<rparr>"
  let ?clock = "\<lambda>(k::nat) (i::nat). testNow"
  let ?locked = "[makePod testNow Hour ''default'' ''locked'' PodRunning ''Terminated'' ''Error'']"
  let ?pods = "[makePod testNow Hour ''default'' ''pod0'' PodRunning ''Terminated'' ''Error'']"
  let ?e = "Wrap (StatusError ''Forbidden'') ''failed to delete pod default/locked''"
  have first: "result (Once ?c (\<lambda>i. False) (?clock 0) ?locked) = Some ?e"
    by (simp add: fixture_defs pass_defs)
  note failing = loop_lifecycle [of ?c ?clock "[Tick, Tick]" ?locked ?e,
      THEN conjunct2, THEN conjunct2, THEN conjunct1, THEN mp, OF first]
  have pos: "0 < interval testController"
    by (simp add: testController_def Minute_def)
  have last: "fst (last (passes (Loop testController ?clock [Tick, StopSignal, Tick] ?pods))) = None"
    by (simp add: Loop_def ran_def fixture_defs pass_defs)
  note stopping = loop_lifecycle [of testController ?clock "[Tick, StopSignal, Tick]" ?pods ?e,
      THEN conjunct2, THEN conjunct2, THEN conjunct2, THEN mp, OF pos,
      THEN conjunct2, THEN conjunct2, THEN conjunct2, THEN conjunct2, THEN conjunct1,
      THEN mp, OF last]
  from failing stopping show ?thesis
    by (simp add: ticks_def)
qed

section \<open>A pod with two matching container statuses\<close>

text \<open>
  C1. The claim is that an eligible pod gets exactly one deletion and that its remaining
  container statuses are not looked at once the deletion is issued. The loop over the
  statuses has no \<^verbatim>\<open>break\<close> after a deletion that succeeds: for a pod, older than the grace
  period and in phase Running, with two container statuses whose reasons are both
  configured, the pass of the test controller logs and calls \<^verbatim>\<open>DeletePod\<close> for the first
  status, then looks at the second status and calls \<^verbatim>\<open>DeletePod\<close> for the same pod again.
\<close>

theorem two_matching_statuses_delete_twice:
  "trace (Once testController (\<lambda>i. False) (\<lambda>i. testNow)
     [\<lparr>Namespace = ''default'', Name = ''pod0'', CreationTimestamp = testNow - Hour,
       Phase = PodRunning,
       ContainerStatuses =
         [\<lparr>State = \<lparr>Waiting = Some ''CrashLoopBackOff'', Running = False, Terminated = None\<rparr>\<rparr>,
          \<lparr>State = \<lparr>Waiting = None, Running = False, Terminated = Some ''Error''\<rparr>\<rparr>]\<rparr>])
   = [(0, Deleting ''CrashLoopBackOff''), (0, DeletePodCall ''default'' ''pod0'' None),
      (0, Deleting ''Error''), (0, DeletePodCall ''default'' ''pod0'' None)] \<and>
   length (deletions 0 (trace (Once testController (\<lambda>i. False) (\<lambda>i. testNow)
     [\<lparr>Namespace = ''default'', Name = ''pod0'', CreationTimestamp = testNow - Hour,
       Phase = PodRunning,
       ContainerStatuses =
         [\<lparr>State = \<lparr>Waiting = Some ''CrashLoopBackOff'', Running = False, Terminated = None\<rparr>\<rparr>,
          \<lparr>State = \<lparr>Waiting = None, Running = False, Terminated = Some ''Error''\<rparr>\<rparr>]\<rparr>])))
   = 2"
  by (simp add: fixture_defs pass_defs)

end
